theory Spec2Isabelle
  imports Main
begin

section \<open>The trailing-backslash preprocessor of \<^verbatim>\<open>docs/tools/src/md_slash/__init__.py\<close>\<close>

subsection \<open>Python's string operations used by the source\<close>

text \<open>
  A Python \<^verbatim>\<open>str\<close> is a \<^typ>\<open>string\<close>, the list of its characters.
  \<^verbatim>\<open>s.endswith(suffix)\<close> holds when the last \<^verbatim>\<open>len(suffix)\<close> characters of
  \<^verbatim>\<open>s\<close> are \<^verbatim>\<open>suffix\<close>; a string shorter than the suffix never matches.
\<close>

definition endswith :: "string \<Rightarrow> string \<Rightarrow> bool" where
  "endswith s suffix =
     (length suffix \<le> length s \<and> drop (length s - length suffix) s = suffix)"

text \<open>
  The slice \<^verbatim>\<open>s[:-1]\<close>: the stop index \<^verbatim>\<open>-1\<close> is read as \<^verbatim>\<open>len(s) - 1\<close> and
  clipped at \<^verbatim>\<open>0\<close>, so the slice of the empty string is the empty string and nothing
  is raised. The subtraction on \<^typ>\<open>nat\<close> stops at \<open>0\<close> in the same way.
\<close>

definition slice_to_last :: "string \<Rightarrow> string" where
  "slice_to_last s = take (length s - 1) s"

text \<open>
  The two string literals of the source: the one-character string that holds a single
  backslash (character code \<open>0x5C\<close>), and the break marker \<^verbatim>\<open><br>\<close>.
\<close>

definition backslash :: string where
  "backslash = [CHR 0x5C]"

definition br :: string where
  "br = ''<br>''"

subsection \<open>\<^verbatim>\<open>TrailingSlashPreprocessor.run\<close>\<close>

text \<open>
  The body of the \<^verbatim>\<open>for\<close> loop, for one \<^verbatim>\<open>line\<close>: the list \<^verbatim>\<open>new_lines\<close> after the
  \<^verbatim>\<open>append\<close> of either branch.
\<close>

definition loop_body :: "string list \<Rightarrow> string \<Rightarrow> string list" where
  "loop_body new_lines line =
     (if endswith line backslash
      then (let new_line = slice_to_last line @ br in new_lines @ [new_line])
      else new_lines @ [line])"

text \<open>The \<^verbatim>\<open>for line in lines\<close> loop, threading \<^verbatim>\<open>new_lines\<close>.\<close>

fun for_lines :: "string list \<Rightarrow> string list \<Rightarrow> string list" where
  "for_lines new_lines [] = new_lines"
| "for_lines new_lines (line # rest) = for_lines (loop_body new_lines line) rest"

definition run :: "string list \<Rightarrow> string list" where
  "run lines = for_lines [] lines"

text \<open>What the loop does to one line, as a function of that line alone.\<close>

definition transform_line :: "string \<Rightarrow> string" where
  "transform_line line =
     (if endswith line backslash then slice_to_last line @ br else line)"

text \<open>
  The \<^verbatim>\<open>for\<close> statement with its iteration written out. The iterator of a Python list
  holds a position; each step compares it with the length of the list, hands out the
  element at the position and advances, and the loop ends when the position reaches the
  length. Here a loop that does not return has the value \<open>None\<close>. None of the
  operations of the body raises: \<^verbatim>\<open>endswith\<close>, a slice, \<^verbatim>\<open>+\<close> on strings and
  \<^verbatim>\<open>append\<close> are defined on every string, so the model has no error value.
\<close>

partial_function (option) iterate ::
  "string list \<Rightarrow> nat \<Rightarrow> string list \<Rightarrow> string list option" where
  "iterate lines pos new_lines =
     (if pos < length lines
      then iterate lines (pos + 1) (loop_body new_lines (lines ! pos))
      else Some new_lines)"

subsection \<open>\<^verbatim>\<open>TrailingSlashExtension.extendMarkdown\<close>\<close>

text \<open>
  A registered stage: the name it is registered under, the registered item (the
  transformation of the lines of a document) and its priority.
\<close>

record stage =
  stage_name :: string
  stage_item :: "string list \<Rightarrow> string list"
  stage_priority :: int

type_synonym registry = "stage list"

text \<open>
  Modelled from the spec: the registry of the host library (\<^verbatim>\<open>md.preprocessors\<close> and
  its \<^verbatim>\<open>register\<close>) is not part of this repository. The spec describes it as an
  ordered chain of line-preprocessing stages, each identified by a unique name and
  carrying a numeric priority. Registering under a name therefore replaces a stage
  that has this name already.
\<close>

definition register ::
  "registry \<Rightarrow> (string list \<Rightarrow> string list) \<Rightarrow> string \<Rightarrow> int \<Rightarrow> registry" where
  "register reg item name priority =
     filter (\<lambda>s. stage_name s \<noteq> name) reg
       @ [\<lparr>stage_name = name, stage_item = item, stage_priority = priority\<rparr>]"

text \<open>
  Modelled from the spec: the order in which the host runs the registered stages, which
  is decided by the host library. In the host's convention higher priority values
  execute earlier, so the chain is the registry in descending order of priority.
\<close>

definition chain :: "registry \<Rightarrow> stage list" where
  "chain reg = sort_key (\<lambda>s. - stage_priority s) reg"

text \<open>
  In a chain, the stage named \<open>a\<close> runs before the stage named \<open>b\<close>: \<open>b\<close> is found
  behind the first stage named \<open>a\<close>.
\<close>

definition runs_before :: "string \<Rightarrow> string \<Rightarrow> stage list \<Rightarrow> bool" where
  "runs_before a b stages =
     (b \<in> stage_name ` set (drop 1 (dropWhile (\<lambda>s. stage_name s \<noteq> a) stages)))"

text \<open>The part of the host's \<^verbatim>\<open>md\<close> object that the source touches.\<close>

record markdown =
  preprocessors :: registry

text \<open>
  \<^verbatim>\<open>md.preprocessors.register(TrailingSlashPreprocessor(md), 'trailing_slash_preprocessor', 25)\<close>:
  the registered item is the preprocessor, whose behaviour is \<^const>\<open>run\<close>.
\<close>

definition extendMarkdown :: "markdown \<Rightarrow> markdown" where
  "extendMarkdown md =
     md\<lparr>preprocessors :=
          register (preprocessors md) run ''trailing_slash_preprocessor'' 25\<rparr>"

section \<open>Properties\<close>

subsection \<open>Helper facts\<close>

lemma loop_body_eq: "loop_body new_lines line = new_lines @ [transform_line line]"
  by (simp add: loop_body_def transform_line_def)

lemma for_lines_eq: "for_lines new_lines lines = new_lines @ map transform_line lines"
  by (induction lines arbitrary: new_lines) (simp_all add: loop_body_eq)

lemma run_eq_map: "run lines = map transform_line lines"
  by (simp add: run_def for_lines_eq)

lemma endswith_backslash_iff:
  "endswith s backslash \<longleftrightarrow> s \<noteq> [] \<and> last s = CHR 0x5C"
proof (cases s rule: rev_cases)
  case Nil
  then show ?thesis by (simp add: endswith_def backslash_def)
next
  case (snoc ys y)
  then show ?thesis by (simp add: endswith_def backslash_def)
qed

lemma slice_to_last_eq: "slice_to_last s = butlast s"
  by (simp add: slice_to_last_def butlast_conv_take)

lemma transform_line_backslash:
  "endswith line backslash \<Longrightarrow> transform_line line = butlast line @ ''<br>''"
  by (simp add: transform_line_def slice_to_last_eq br_def)

lemma transform_line_other:
  "\<not> endswith line backslash \<Longrightarrow> transform_line line = line"
  by (simp add: transform_line_def)

lemma not_endswith_transform_line: "\<not> endswith (transform_line line) backslash"
  by (simp add: transform_line_def endswith_backslash_iff br_def)

lemma transform_line_idem: "transform_line (transform_line line) = transform_line line"
  by (rule transform_line_other) (rule not_endswith_transform_line)

lemma transform_line_snoc: "transform_line (q @ [CHR 0x5C]) = q @ ''<br>''"
  by (simp add: transform_line_def endswith_backslash_iff slice_to_last_eq br_def)

lemma transform_line_replicate:
  "transform_line (p @ replicate (Suc n) (CHR 0x5C)) = p @ replicate n (CHR 0x5C) @ ''<br>''"
proof -
  have e: "p @ replicate (Suc n) (CHR 0x5C) = (p @ replicate n (CHR 0x5C)) @ [CHR 0x5C]"
    by (simp add: replicate_append_same)
  show ?thesis
    unfolding e transform_line_snoc by simp
qed

text \<open>The loop with its iteration written out computes the same lines.\<close>

lemma iterate_eq:
  "pos \<le> length lines \<Longrightarrow>
   iterate lines pos new_lines = Some (new_lines @ map transform_line (drop pos lines))"
proof (induction "length lines - pos" arbitrary: pos new_lines)
  case 0
  then show ?case by (subst iterate.simps) simp
next
  case (Suc k)
  then have lt: "pos < length lines" by simp
  have "iterate lines (pos + 1) (loop_body new_lines (lines ! pos))
        = Some (loop_body new_lines (lines ! pos) @ map transform_line (drop (pos + 1) lines))"
    using Suc by (intro Suc.hyps(1)) simp_all
  moreover have "drop pos lines = lines ! pos # drop (pos + 1) lines"
    using lt by (simp add: Cons_nth_drop_Suc)
  ultimately show ?case
    using lt by (subst iterate.simps) (simp add: loop_body_eq)
qed

text \<open>Registering, and the order of a chain sorted by descending priority.\<close>

lemma register_filter_name:
  "filter (\<lambda>s. stage_name s = name) (register reg item name priority)
     = [\<lparr>stage_name = name, stage_item = item, stage_priority = priority\<rparr>]"
  by (simp add: register_def)

lemma sorted_key_before:
  assumes srt: "sorted (map k (xs @ a # ys))" and mem: "s \<in> set (xs @ a # ys)"
    and lt: "k a < k s"
  shows "s \<in> set ys"
proof -
  have "s \<notin> set xs"
  proof
    assume "s \<in> set xs"
    with srt have "k s \<le> k a" by (auto simp: sorted_append)
    with lt show False by simp
  qed
  moreover have "s \<noteq> a" using lt by auto
  ultimately show ?thesis using mem by auto
qed

lemma runs_before_chain:
  fixes a :: stage
  assumes a: "a \<in> set reg" and s: "s \<in> set reg"
    and lt: "stage_priority s < stage_priority a"
    and uniq: "\<forall>x \<in> set reg. stage_name x = stage_name a \<longrightarrow> stage_priority x = stage_priority a"
  shows "runs_before (stage_name a) (stage_name s) (chain reg)"
proof -
  let ?k = "\<lambda>s. - stage_priority s"
  let ?P = "\<lambda>x. stage_name x = stage_name a"
  have "\<exists>x \<in> set (chain reg). ?P x" using a by (auto simp: chain_def)
  from split_list_first_prop [OF this]
  obtain xs b ys where split: "chain reg = xs @ b # ys" and b: "?P b"
    and xs: "\<forall>x \<in> set xs. \<not> ?P x"
    by blast
  have "b \<in> set reg" using split by (metis chain_def in_set_conv_decomp set_sort)
  with uniq b have pb: "stage_priority b = stage_priority a" by blast
  have srt: "sorted (map ?k (xs @ b # ys))"
    using split [symmetric] by (simp add: chain_def)
  have mem: "s \<in> set (xs @ b # ys)"
    using s split [symmetric] by (simp add: chain_def)
  have "s \<in> set ys"
    using srt mem by (rule sorted_key_before) (simp add: pb lt)
  moreover have "dropWhile (\<lambda>s. stage_name s \<noteq> stage_name a) (xs @ b # ys) = b # ys"
    using xs b by (simp add: dropWhile_append3)
  ultimately show ?thesis
    by (simp add: runs_before_def split)
qed

subsection \<open>Lines that end with a backslash\<close>

text \<open>
  C1. For every sequence \<open>lines\<close> and every index \<open>i\<close> into it: if \<open>lines[i]\<close> ends
  with a backslash, then element \<open>i\<close> of the output of \<^verbatim>\<open>run\<close> is \<open>lines[i]\<close> without
  its final character, followed by the break marker \<^verbatim>\<open><br>\<close>.
\<close>

theorem run_backslash_line:
  assumes "i < length lines" and "endswith (lines ! i) backslash"
  shows "run lines ! i = butlast (lines ! i) @ ''<br>''"
  using assms by (simp add: run_eq_map transform_line_backslash)

theorem run_backslash_line_witness:
  "0 < length [''hello'' @ [CHR 0x5C]]
   \<and> endswith ([''hello'' @ [CHR 0x5C]] ! 0) backslash
   \<and> run [''hello'' @ [CHR 0x5C]] ! 0 = ''hello<br>''"
proof -
  have h1: "0 < length [''hello'' @ [CHR 0x5C]]" by simp
  have h2: "endswith ([''hello'' @ [CHR 0x5C]] ! 0) backslash"
    by (simp add: endswith_def backslash_def)
  have r: "run [''hello'' @ [CHR 0x5C]] ! 0 = ''hello<br>''"
    using run_backslash_line [OF h1 h2] by simp
  from h1 h2 r show ?thesis by blast
qed

subsection \<open>Lines that do not end with a backslash\<close>

text \<open>
  C2. For every sequence \<open>lines\<close> and every index \<open>i\<close> into it: if \<open>lines[i]\<close> does
  not end with a backslash (the empty string is such a line), then element \<open>i\<close> of the
  output of \<^verbatim>\<open>run\<close> is \<open>lines[i]\<close> itself.
\<close>

theorem run_other_line:
  assumes "i < length lines" and "\<not> endswith (lines ! i) backslash"
  shows "run lines ! i = lines ! i"
  using assms by (simp add: run_eq_map transform_line_other)

theorem run_other_line_witness:
  "1 < length [''hello'', ''''] \<and> \<not> endswith ([''hello'', ''''] ! 1) backslash
   \<and> run [''hello'', ''''] ! 1 = ''''"
proof -
  have h1: "1 < length [''hello'', '''']" by simp
  have h2: "\<not> endswith ([''hello'', ''''] ! 1) backslash"
    by (simp add: endswith_def backslash_def)
  have r: "run [''hello'', ''''] ! 1 = ''''"
    using run_other_line [OF h1 h2] by simp
  from h1 h2 r show ?thesis by blast
qed


subsection \<open>Length\<close>

text \<open>
  C3. For every finite sequence of strings, the output of \<^verbatim>\<open>run\<close> has exactly the
  length of the input, and the empty sequence is mapped to the empty sequence.
\<close>

theorem run_length: "length (run lines) = length lines \<and> run [] = []"
  by (simp add: run_eq_map)

subsection \<open>Several backslashes at the end\<close>

text \<open>
  C4. A line that ends with two or more backslashes loses only the last one, which the
  break marker replaces; the backslashes before it stay. The line may stand anywhere
  in the input. In particular the line \<open>a\<close>, backslash, backslash becomes \<open>a\<close>,
  backslash, \<^verbatim>\<open><br>\<close>.
\<close>

theorem run_double_backslash:
  "run (before @ [p @ replicate (Suc (Suc n)) (CHR 0x5C)] @ after) ! length before
     = p @ replicate (Suc n) (CHR 0x5C) @ ''<br>''
   \<and> run [[CHR ''a'', CHR 0x5C, CHR 0x5C]] = [[CHR ''a'', CHR 0x5C] @ ''<br>'']"
proof
  show "run (before @ [p @ replicate (Suc (Suc n)) (CHR 0x5C)] @ after) ! length before
     = p @ replicate (Suc n) (CHR 0x5C) @ ''<br>''"
    by (simp add: run_eq_map nth_append transform_line_replicate del: replicate_Suc)
  show "run [[CHR ''a'', CHR 0x5C, CHR 0x5C]] = [[CHR ''a'', CHR 0x5C] @ ''<br>'']"
    using transform_line_replicate [of "''a''" 1] by (simp add: run_eq_map)
qed

subsection \<open>Idempotence\<close>

text \<open>
  C5. \<^verbatim>\<open>run\<close> is idempotent on every input: running it on its own output changes
  nothing, because no line of the output ends with a backslash.
\<close>

theorem run_idempotent: "run (run lines) = run lines"
  by (simp add: run_eq_map transform_line_idem)

subsection \<open>No stripping of whitespace\<close>

text \<open>
  C6. The check looks at the final character of the line as given. A line that has a
  backslash followed by a non-empty tail whose last character is not a backslash, such
  as trailing whitespace, is left unchanged, wherever it stands in the input.
\<close>

theorem run_no_strip:
  assumes "ws \<noteq> []" and "last ws \<noteq> CHR 0x5C"
  shows "run (before @ [p @ [CHR 0x5C] @ ws] @ after) ! length before = p @ [CHR 0x5C] @ ws"
  using assms by (simp add: run_eq_map nth_append transform_line_def endswith_backslash_iff)

theorem run_no_strip_witness:
  "'' '' \<noteq> [] \<and> last '' '' \<noteq> CHR 0x5C
   \<and> run ([] @ [''a'' @ [CHR 0x5C] @ '' ''] @ []) ! length ([] :: string list)
       = [CHR ''a'', CHR 0x5C, CHR '' '']"
proof -
  have h1: "'' '' \<noteq> []" by simp
  have h2: "last '' '' \<noteq> CHR 0x5C" by simp
  have r: "run ([] @ [''a'' @ [CHR 0x5C] @ '' ''] @ []) ! length ([] :: string list)
       = [CHR ''a'', CHR 0x5C, CHR '' '']"
    using run_no_strip [OF h1 h2, of "[]" "''a''" "[]"] by simp
  from h1 h2 r show ?thesis by blast
qed

subsection \<open>Registration\<close>

text \<open>
  C7. \<^verbatim>\<open>extendMarkdown\<close> registers the transformer in the host's chain of
  preprocessing stages: afterwards exactly one stage has the name
  \<^verbatim>\<open>trailing_slash_preprocessor\<close>, its item is \<^verbatim>\<open>run\<close> and its priority is the
  constant 25. Every stage of the host whose priority is below 25 runs after it, in the
  host's convention that higher priorities run earlier.
\<close>

theorem extendMarkdown_registers:
  "filter (\<lambda>s. stage_name s = ''trailing_slash_preprocessor'')
          (preprocessors (extendMarkdown md))
     = [\<lparr>stage_name = ''trailing_slash_preprocessor'', stage_item = run, stage_priority = 25\<rparr>]
   \<and> (\<forall>s \<in> set (preprocessors md).
         stage_name s \<noteq> ''trailing_slash_preprocessor'' \<and> stage_priority s < 25 \<longrightarrow>
         runs_before ''trailing_slash_preprocessor'' (stage_name s)
           (chain (preprocessors (extendMarkdown md))))"
proof (intro conjI ballI impI)
  show "filter (\<lambda>s. stage_name s = ''trailing_slash_preprocessor'')
          (preprocessors (extendMarkdown md))
     = [\<lparr>stage_name = ''trailing_slash_preprocessor'', stage_item = run, stage_priority = 25\<rparr>]"
    by (simp add: extendMarkdown_def register_filter_name)
next
  fix s
  assume s: "s \<in> set (preprocessors md)"
    and h: "stage_name s \<noteq> ''trailing_slash_preprocessor'' \<and> stage_priority s < 25"
  let ?a = "\<lparr>stage_name = ''trailing_slash_preprocessor'', stage_item = run, stage_priority = 25\<rparr>"
  let ?reg = "preprocessors (extendMarkdown md)"
  have reg: "?reg = filter (\<lambda>s. stage_name s \<noteq> ''trailing_slash_preprocessor'') (preprocessors md) @ [?a]"
    by (simp add: extendMarkdown_def register_def)
  have "runs_before (stage_name ?a) (stage_name s) (chain ?reg)"
  proof (rule runs_before_chain)
    show "?a \<in> set ?reg" by (simp add: reg)
    show "s \<in> set ?reg" using s h by (simp add: reg)
    show "stage_priority s < stage_priority ?a" using h by simp
    show "\<forall>x \<in> set ?reg. stage_name x = stage_name ?a \<longrightarrow> stage_priority x = stage_priority ?a"
      by (auto simp: reg)
  qed
  then show "runs_before ''trailing_slash_preprocessor'' (stage_name s) (chain ?reg)"
    by simp
qed

theorem extendMarkdown_registers_witness:
  "\<lparr>stage_name = ''standard'', stage_item = id, stage_priority = 20\<rparr>
      \<in> set (preprocessors \<lparr>preprocessors =
            [\<lparr>stage_name = ''standard'', stage_item = id, stage_priority = 20\<rparr>]\<rparr>)
   \<and> ''standard'' \<noteq> ''trailing_slash_preprocessor'' \<and> (20::int) < 25
   \<and> runs_before ''trailing_slash_preprocessor'' ''standard''
        (chain (preprocessors (extendMarkdown \<lparr>preprocessors =
            [\<lparr>stage_name = ''standard'', stage_item = id, stage_priority = 20\<rparr>]\<rparr>)))"
proof -
  let ?s = "\<lparr>stage_name = ''standard'', stage_item = id, stage_priority = 20\<rparr>"
  let ?md = "\<lparr>preprocessors = [?s]\<rparr>"
  have h1: "?s \<in> set (preprocessors ?md)" by simp
  have h2: "stage_name ?s \<noteq> ''trailing_slash_preprocessor'' \<and> stage_priority ?s < 25" by simp
  have r: "runs_before ''trailing_slash_preprocessor'' (stage_name ?s)
        (chain (preprocessors (extendMarkdown ?md)))"
    using extendMarkdown_registers [of ?md, THEN conjunct2, THEN bspec, OF h1] h2 by blast
  from h1 h2 r show ?thesis by simp
qed

subsection \<open>Termination\<close>

text \<open>
  C9. \<^verbatim>\<open>run\<close> terminates and returns a result on every finite sequence of strings:
  the loop with its iteration written out returns, and what it returns is the output
  of \<^verbatim>\<open>run\<close>. There is no failure case.
\<close>

theorem run_terminates: "iterate lines 0 [] = Some (run lines)"
  by (simp add: iterate_eq run_eq_map)

subsection \<open>No output line ends with a backslash\<close>

text \<open>
  C10. No line of the output of \<^verbatim>\<open>run\<close> ends with a backslash: every output line
  is an input line that did not end with a backslash, or it ends with the marker
  \<^verbatim>\<open><br>\<close>.
\<close>

theorem run_output_no_backslash:
  "\<forall>l \<in> set (run lines).
     \<not> endswith l backslash
     \<and> ((l \<in> set lines \<and> \<not> endswith l backslash) \<or> endswith l ''<br>'')"
proof
  fix l assume "l \<in> set (run lines)"
  then obtain x where x: "x \<in> set lines" and l: "l = transform_line x"
    by (auto simp: run_eq_map)
  have a: "\<not> endswith l backslash" unfolding l by (rule not_endswith_transform_line)
  have b: "(l \<in> set lines \<and> \<not> endswith l backslash) \<or> endswith l ''<br>''"
  proof (cases "endswith x backslash")
    case True
    then have "l = butlast x @ ''<br>''" unfolding l by (rule transform_line_backslash)
    then have "endswith l ''<br>''" by (simp add: endswith_def)
    then show ?thesis ..
  next
    case False
    then have "l = x" unfolding l by (rule transform_line_other)
    with x a show ?thesis by simp
  qed
  from a b show "\<not> endswith l backslash
     \<and> ((l \<in> set lines \<and> \<not> endswith l backslash) \<or> endswith l ''<br>'')" ..
qed

theorem run_output_no_backslash_witness:
  "''a<br>'' \<in> set (run [''a'' @ [CHR 0x5C], ''b''])
   \<and> \<not> endswith ''a<br>'' backslash
   \<and> ((''a<br>'' \<in> set [''a'' @ [CHR 0x5C], ''b''] \<and> \<not> endswith ''a<br>'' backslash)
        \<or> endswith ''a<br>'' ''<br>'')"
proof -
  have m: "''a<br>'' \<in> set (run [''a'' @ [CHR 0x5C], ''b''])"
    by (simp add: run_def loop_body_def endswith_def backslash_def slice_to_last_def br_def)
  from run_output_no_backslash [of "[''a'' @ [CHR 0x5C], ''b'']", THEN bspec, OF m] m
  show ?thesis by blast
qed

end
